theory Spec2Isabelle
  imports Main
begin

section \<open>QSignalInspector: recording the signal emissions of an object\<close>

text \<open>
  The header \<^verbatim>\<open>QSignalInspector.hpp\<close> declares the struct
  \<^verbatim>\<open>QSignalEmissionEvent\<close> and the class \<^verbatim>\<open>QSignalInspector\<close> with two
  operations: the constructor, which walks the methods of the inspected object and
  attaches one \<^verbatim>\<open>QSignalSpy\<close> and one connection per signal, and the private slot
  \<^verbatim>\<open>signalEmitted()\<close>, which finds the spy that caught an emission and appends an
  entry to the list the inspector inherits from.  Both are embedded below as functions
  on an explicit inspector state.
\<close>

subsection \<open>The host's meta-object data\<close>

text \<open>
  The enum \<^verbatim>\<open>QMetaMethod::MethodType\<close>.
\<close>

datatype MethodType = Method | Signal | Slot | Constructor

text \<open>
  A \<^verbatim>\<open>QVariant\<close> holding one argument value, and its type name
  (\<^verbatim>\<open>QVariant::typeName()\<close>).
\<close>

datatype QVariant = VBool bool | VInt int | VString string

fun typeName :: "QVariant \<Rightarrow> string" where
  "typeName (VBool b) = ''bool''"
| "typeName (VInt n) = ''int''"
| "typeName (VString s) = ''QString''"

text \<open>
  The parts of a \<^verbatim>\<open>QMetaMethod\<close> the inspector reads: its kind, its signature and
  the type names of its formal parameters.
\<close>

record QMetaMethod =
  methodType :: MethodType
  methodSignature :: string
  parameterTypes :: "string list"

text \<open>
  A default-constructed (invalid) \<^verbatim>\<open>QMetaMethod\<close>: what
  \<^verbatim>\<open>QMetaObject::method\<close> returns for an index that is out of range.
\<close>

definition invalidMethod :: QMetaMethod where
  "invalidMethod = \<lparr>methodType = Method, methodSignature = [], parameterTypes = []\<rparr>"

text \<open>
  A \<^verbatim>\<open>QMetaObject\<close>: the methods of a class in enumeration order, those of the
  ancestor classes first, and the index of the first method the class itself declares.
  Method indices are C++ \<^verbatim>\<open>int\<close>s that only ever range over
  \<open>0 .. methodCount\<close>, so they are natural numbers here.
\<close>

record QMetaObject =
  methods :: "QMetaMethod list"
  methodOffset :: nat

definition methodCount :: "QMetaObject \<Rightarrow> nat" where
  "methodCount mo = length (methods mo)"

definition method_at :: "QMetaObject \<Rightarrow> nat \<Rightarrow> QMetaMethod" where
  "method_at mo i = (if i < methodCount mo then methods mo ! i else invalidMethod)"

record QObject =
  metaObject :: QMetaObject

subsection \<open>The inspector's data\<close>

type_synonym QDateTime = int

record QSignalEmissionEvent =
  signal :: QMetaMethod
  timestamp :: QDateTime
  parameters :: "QVariant list"

text \<open>
  A \<^verbatim>\<open>QSignalSpy\<close> is a list of argument lists, one per caught emission:
  \<^verbatim>\<open>count()\<close> is its length, \<^verbatim>\<open>at(0)\<close> its first element and
  \<^verbatim>\<open>clear()\<close> empties it.
\<close>

type_synonym QSignalSpy = "QVariant list list"

text \<open>
  The state of a \<^verbatim>\<open>QSignalInspector\<close>.  \<open>events\<close> is the
  \<^verbatim>\<open>QList<QSignalEmissionEvent>\<close> base class.  \<open>m_signalSpies\<close> is the
  \<^verbatim>\<open>QMap\<close> from method index to spy; every spy is allocated by its own
  \<^verbatim>\<open>new\<close> and referenced from one key only, so the map holds the spy's contents
  and a null pointer is an absent key.  \<open>connections\<close> lists the signals that
  \<^verbatim>\<open>QObject::connect\<close> has tied to the slot, in the order of the calls, and
  \<open>warnings\<close> collects the messages passed to \<^verbatim>\<open>qWarning\<close>.
\<close>

record QSignalInspector =
  events :: "QSignalEmissionEvent list"
  m_signalSpies :: "nat \<rightharpoonup> QSignalSpy"
  connections :: "nat list"
  warnings :: "string list"

subsection \<open>The constructor\<close>

text \<open>
  The loop of the constructor (lines 84 to 92): for every method from \<open>methodIndex\<close>
  on that is a signal, a fresh, empty spy is inserted under the method's index and the
  signal is connected to the slot.
\<close>

function ctor_loop :: "QMetaObject \<Rightarrow> nat \<Rightarrow> QSignalInspector \<Rightarrow> QSignalInspector" where
  "ctor_loop mo methodIndex insp =
     (if methodIndex < methodCount mo then
        ctor_loop mo (Suc methodIndex)
          (if methodType (method_at mo methodIndex) = Signal
           then insp\<lparr>m_signalSpies := (m_signalSpies insp)(methodIndex \<mapsto> []),
                     connections := connections insp @ [methodIndex]\<rparr>
           else insp)
      else insp)"
  by pat_completeness auto
termination
  by (relation "measure (\<lambda>(mo, methodIndex, insp). methodCount mo - methodIndex)") auto

definition QSignalInspector_ctor :: "QObject \<Rightarrow> bool \<Rightarrow> QSignalInspector" where
  "QSignalInspector_ctor object includeParentClassSignals =
     ctor_loop (metaObject object)
       (if includeParentClassSignals then 0 else methodOffset (metaObject object))
       \<lparr>events = [], m_signalSpies = Map.empty, connections = [], warnings = []\<rparr>"

subsection \<open>The slot\<close>

text \<open>
  The search loop of \<^verbatim>\<open>signalEmitted()\<close> (lines 109 to 122).  It either leaves the
  slot through the \<^verbatim>\<open>return\<close> after the warning, or ends (by \<^verbatim>\<open>break\<close> or
  because the condition fails) with the values of \<^verbatim>\<open>signalIndex\<close> and
  \<^verbatim>\<open>signalSpy\<close>.  The pointer \<^verbatim>\<open>signalSpy\<close> is the key of the spy it points
  to together with that spy's contents, or \<open>None\<close> while it is null.
\<close>

datatype loop_exit =
    Return_unexpected
  | Exit nat "(nat \<times> QSignalSpy) option"

function find_spy ::
  "QMetaObject \<Rightarrow> (nat \<rightharpoonup> QSignalSpy) \<Rightarrow> nat \<Rightarrow> (nat \<times> QSignalSpy) option \<Rightarrow> loop_exit" where
  "find_spy mo spies signalIndex signalSpy =
     (if signalIndex < methodCount mo then
        if methodType (method_at mo signalIndex) \<noteq> Signal
        then find_spy mo spies (Suc signalIndex) signalSpy
        else (case spies signalIndex of
                None \<Rightarrow> Return_unexpected
              | Some s \<Rightarrow>
                  if length s > 0 then Exit signalIndex (Some (signalIndex, s))
                  else find_spy mo spies (Suc signalIndex) (Some (signalIndex, s)))
      else Exit signalIndex signalSpy)"
  by pat_completeness auto
termination
  by (relation "measure (\<lambda>(mo, spies, signalIndex, signalSpy). methodCount mo - signalIndex)")
    auto

text \<open>
  The ways the slot can fail to return: the \<^verbatim>\<open>Q_ASSERT_X\<close> on the sender
  (line 99), the dereference of a null sender in \<^verbatim>\<open>sender->metaObject()\<close>
  (line 101), a dereference of a null \<^verbatim>\<open>signalSpy\<close>, and \<^verbatim>\<open>at(0)\<close> on a
  spy that holds nothing (both line 124).
\<close>

datatype fault = Assert_sender | Null_sender | Null_spy | Index_out_of_range

text \<open>
  \<^verbatim>\<open>signalEmitted()\<close>.  The sender that \<^verbatim>\<open>QObject::sender()\<close> reports and the
  time that \<^verbatim>\<open>QDateTime::currentDateTime()\<close> returns come from the host and are
  arguments here.  So is the build: \<^verbatim>\<open>Q_ASSERT_X\<close> checks its condition only
  while the macro \<^verbatim>\<open>QT_NO_DEBUG\<close> is not defined and expands to nothing when it
  is.  Without a sender the slot therefore stops at the assertion in a debug build, and
  in a build with \<^verbatim>\<open>QT_NO_DEBUG\<close> goes on to line 101, where it dereferences
  the null pointer.
\<close>

definition signalEmitted ::
  "bool \<Rightarrow> QObject option \<Rightarrow> QDateTime \<Rightarrow> QSignalInspector \<Rightarrow> fault + QSignalInspector" where
  "signalEmitted qt_no_debug sender now insp =
     (case sender of
        None \<Rightarrow> if qt_no_debug then Inl Null_sender else Inl Assert_sender
      | Some obj \<Rightarrow>
          (case find_spy (metaObject obj) (m_signalSpies insp) 0 None of
             Return_unexpected \<Rightarrow>
               Inr (insp\<lparr>warnings := warnings insp @ [''QSignalInspector: Unexpected signal emitted'']\<rparr>)
           | Exit signalIndex signalSpy \<Rightarrow>
               (case signalSpy of
                  None \<Rightarrow> Inl Null_spy
                | Some (key, s) \<Rightarrow>
                    (case s of
                       [] \<Rightarrow> Inl Index_out_of_range
                     | signalParameters # rest \<Rightarrow>
                         Inr (insp\<lparr>events := events insp @
                                      [\<lparr>signal = method_at (metaObject obj) signalIndex,
                                        timestamp = now,
                                        parameters = signalParameters\<rparr>],
                                   m_signalSpies := (m_signalSpies insp)(key \<mapsto> [])\<rparr>)))))"

subsection \<open>Emissions\<close>

text \<open>
  Modelled from the spec: the host's dispatch facility and its single-event
  observation primitive, which are Qt's and not part of the header.  Following
  sections 1, 4.2 and 5 of the specification, an emission of the signal with index
  \<open>i\<close> runs, synchronously and in the order in which the connections were made, first
  the spy attached to that signal (it was connected at line 89), which records the
  argument list at its end, and then the slot (connected at line 90) with the emitting
  object as sender.
\<close>

definition emit_signal ::
  "bool \<Rightarrow> QObject \<Rightarrow> nat \<Rightarrow> QVariant list \<Rightarrow> QDateTime \<Rightarrow> QSignalInspector \<Rightarrow>
     fault + QSignalInspector" where
  "emit_signal qt_no_debug obj i args now insp =
     (let caught = (case m_signalSpies insp i of
                      None \<Rightarrow> insp
                    | Some s \<Rightarrow> insp\<lparr>m_signalSpies := (m_signalSpies insp)(i \<mapsto> s @ [args])\<rparr>)
      in if i \<in> set (connections insp) then signalEmitted qt_no_debug (Some obj) now caught
         else Inr caught)"

text \<open>
  An emission is the index of the signal, the argument values and the time at which the
  slot reads the clock.  A sequence of emissions stops at the first fault.  The build
  is passed on to the slot.
\<close>

type_synonym emission = "nat \<times> QVariant list \<times> QDateTime"

fun emit_all ::
  "bool \<Rightarrow> QObject \<Rightarrow> emission list \<Rightarrow> QSignalInspector \<Rightarrow> fault + QSignalInspector" where
  "emit_all qt_no_debug obj [] insp = Inr insp"
| "emit_all qt_no_debug obj ((i, args, now) # es) insp =
     (case emit_signal qt_no_debug obj i args now insp of
        Inl f \<Rightarrow> Inl f
      | Inr insp' \<Rightarrow> emit_all qt_no_debug obj es insp')"

text \<open>
  The entry the inspector is expected to log for an emission.
\<close>

definition expected_event :: "QMetaObject \<Rightarrow> emission \<Rightarrow> QSignalEmissionEvent" where
  "expected_event mo e =
     (case e of (i, args, now) \<Rightarrow> \<lparr>signal = method_at mo i, timestamp = now, parameters = args\<rparr>)"

text \<open>
  The arguments of an emission have the types of the signal's formal parameters: the
  signal is a C++ member function, and the spy stores one variant per parameter.
\<close>

definition conforms :: "QMetaMethod \<Rightarrow> QVariant list \<Rightarrow> bool" where
  "conforms m args = (map typeName args = parameterTypes m)"

text \<open>
  A sequence of emissions is well typed when every argument list conforms to the signal
  it is emitted with, and consists of signals only when every index names a signal.
\<close>

fun well_typed :: "QMetaObject \<Rightarrow> emission list \<Rightarrow> bool" where
  "well_typed mo [] = True"
| "well_typed mo ((i, args, now) # es) = (conforms (method_at mo i) args \<and> well_typed mo es)"

fun signals_only :: "QMetaObject \<Rightarrow> emission list \<Rightarrow> bool" where
  "signals_only mo [] = True"
| "signals_only mo ((i, args, now) # es) =
     (methodType (method_at mo i) = Signal \<and> signals_only mo es)"

subsection \<open>The specification's vocabulary\<close>

text \<open>
  An observation handle reports a non-zero firing count since its last clear.
\<close>

definition pending :: "(nat \<rightharpoonup> QSignalSpy) \<Rightarrow> nat \<Rightarrow> bool" where
  "pending spies i = (case spies i of None \<Rightarrow> False | Some s \<Rightarrow> 0 < length s)"

text \<open>
  The selection rule in the specification's words (section 4.2, step 4): the first
  event, in enumeration order from index 0, whose observation handle is pending.
\<close>

definition first_pending :: "QMetaObject \<Rightarrow> (nat \<rightharpoonup> QSignalSpy) \<Rightarrow> nat option" where
  "first_pending mo spies =
     List.find (\<lambda>i. methodType (method_at mo i) = Signal \<and> pending spies i) [0..<methodCount mo]"

text \<open>
  The events a type declares itself and those its ancestors declare, as method indices
  in enumeration order.
\<close>

definition own_signals :: "QMetaObject \<Rightarrow> nat list" where
  "own_signals mo =
     filter (\<lambda>i. methodType (method_at mo i) = Signal) [methodOffset mo..<methodCount mo]"

definition ancestor_signals :: "QMetaObject \<Rightarrow> nat list" where
  "ancestor_signals mo =
     filter (\<lambda>i. methodType (method_at mo i) = Signal) [0..<methodOffset mo]"

subsection \<open>Example objects\<close>

text \<open>
  A door, after the specification's example scenario: its ancestor declares the signal
  \<^verbatim>\<open>objectNameChanged(QString)\<close> and the slot \<^verbatim>\<open>deleteLater()\<close>, the class
  itself the signals \<^verbatim>\<open>opened()\<close> and \<^verbatim>\<open>closed(QString)\<close> and the slot
  \<^verbatim>\<open>lock()\<close>.
\<close>

definition door :: QObject where
  "door = \<lparr>metaObject = \<lparr>methods =
     [\<lparr>methodType = Signal, methodSignature = ''objectNameChanged(QString)'',
        parameterTypes = [''QString'']\<rparr>,
      \<lparr>methodType = Slot, methodSignature = ''deleteLater()'', parameterTypes = []\<rparr>,
      \<lparr>methodType = Signal, methodSignature = ''opened()'', parameterTypes = []\<rparr>,
      \<lparr>methodType = Signal, methodSignature = ''closed(QString)'',
        parameterTypes = [''QString'']\<rparr>,
      \<lparr>methodType = Slot, methodSignature = ''lock()'', parameterTypes = []\<rparr>],
     methodOffset = 2\<rparr>\<rparr>"

section \<open>The search loop\<close>

declare find_spy.simps [simp del] ctor_loop.simps [simp del]

text \<open>
  The loop breaks at \<open>j\<close> when \<open>j\<close> is a signal whose spy holds something and every
  signal from the starting index up to \<open>j\<close> has a spy that holds nothing.
\<close>

lemma find_spy_found:
  assumes "j < methodCount mo" "methodType (method_at mo j) = Signal"
    and "spies j = Some s" "s \<noteq> []"
    and "\<forall>i. k \<le> i \<and> i < j \<and> methodType (method_at mo i) = Signal \<longrightarrow> spies i = Some []"
    and "k \<le> j"
  shows "find_spy mo spies k p = Exit j (Some (j, s))"
  using assms(5,6)
proof (induction "j - k" arbitrary: k p)
  case 0
  then have "k = j" by simp
  with assms(1-4) show ?case by (simp add: find_spy.simps)
next
  case (Suc d)
  then have lt: "k < j" and d: "d = j - Suc k" by simp_all
  have rest: "\<forall>i. Suc k \<le> i \<and> i < j \<and> methodType (method_at mo i) = Signal \<longrightarrow> spies i = Some []"
    using Suc.prems(1) by simp
  have step: "find_spy mo spies (Suc k) q = Exit j (Some (j, s))" for q
    using Suc.hyps(1) [OF d rest] lt by simp
  show ?case
  proof (cases "methodType (method_at mo k) = Signal")
    case True
    with Suc.prems(1) lt have "spies k = Some []" by simp
    with True lt assms(1) step show ?thesis by (simp add: find_spy.simps [of mo spies k])
  next
    case False
    with lt assms(1) step show ?thesis by (simp add: find_spy.simps [of mo spies k])
  qed
qed

text \<open>
  The loop returns through the warning when it meets a signal without a spy before any
  signal whose spy holds something.
\<close>

lemma find_spy_unexpected:
  assumes "j < methodCount mo" "methodType (method_at mo j) = Signal"
    and "spies j = None"
    and "\<forall>i. k \<le> i \<and> i < j \<and> methodType (method_at mo i) = Signal \<longrightarrow> spies i = Some []"
    and "k \<le> j"
  shows "find_spy mo spies k p = Return_unexpected"
  using assms(4,5)
proof (induction "j - k" arbitrary: k p)
  case 0
  then have "k = j" by simp
  with assms(1-3) show ?case by (simp add: find_spy.simps)
next
  case (Suc d)
  then have lt: "k < j" and d: "d = j - Suc k" by simp_all
  have rest: "\<forall>i. Suc k \<le> i \<and> i < j \<and> methodType (method_at mo i) = Signal \<longrightarrow> spies i = Some []"
    using Suc.prems(1) by simp
  have step: "find_spy mo spies (Suc k) q = Return_unexpected" for q
    using Suc.hyps(1) [OF d rest] lt by simp
  show ?case
  proof (cases "methodType (method_at mo k) = Signal")
    case True
    with Suc.prems(1) lt have "spies k = Some []" by simp
    with True lt assms(1) step show ?thesis by (simp add: find_spy.simps [of mo spies k])
  next
    case False
    with lt assms(1) step show ?thesis by (simp add: find_spy.simps [of mo spies k])
  qed
qed

text \<open>
  The loop runs to \<open>methodCount\<close> when every signal has a spy that holds nothing; the
  pointer then is the last such spy, or what it was when there is no signal at all.
\<close>

lemma find_spy_exhausted:
  assumes "\<forall>i. k \<le> i \<and> i < methodCount mo \<and> methodType (method_at mo i) = Signal \<longrightarrow> spies i = Some []"
    and "k \<le> methodCount mo"
  shows "\<exists>q. find_spy mo spies k p = Exit (methodCount mo) q \<and>
           (if \<exists>i. k \<le> i \<and> i < methodCount mo \<and> methodType (method_at mo i) = Signal
            then \<exists>j. q = Some (j, []) else q = p)"
  using assms
proof (induction "methodCount mo - k" arbitrary: k p)
  case 0
  then have "k = methodCount mo" by simp
  then show ?case by (auto simp add: find_spy.simps)
next
  case (Suc d)
  then have lt: "k < methodCount mo" and d: "d = methodCount mo - Suc k" by simp_all
  have rest: "\<forall>i. Suc k \<le> i \<and> i < methodCount mo \<and> methodType (method_at mo i) = Signal \<longrightarrow> spies i = Some []"
    using Suc.prems(1) by simp
  have le: "Suc k \<le> methodCount mo" using lt by simp
  note step = Suc.hyps(1) [OF d rest le]
  show ?case
  proof (cases "methodType (method_at mo k) = Signal")
    case True
    with Suc.prems(1) lt have e: "spies k = Some []" by simp
    obtain q where q: "find_spy mo spies (Suc k) (Some (k, [])) = Exit (methodCount mo) q"
      and q': "if \<exists>i. Suc k \<le> i \<and> i < methodCount mo \<and> methodType (method_at mo i) = Signal
            then \<exists>j. q = Some (j, []) else q = Some (k, [])"
      using step [of "Some (k, [])"] by blast
    have "find_spy mo spies k p = Exit (methodCount mo) q"
      using True lt e q by (simp add: find_spy.simps [of mo spies k])
    moreover have "\<exists>j. q = Some (j, [])" using q' by (auto split: if_splits)
    moreover have "\<exists>i. k \<le> i \<and> i < methodCount mo \<and> methodType (method_at mo i) = Signal"
      using True lt by auto
    ultimately show ?thesis by simp
  next
    case False
    obtain q where q: "find_spy mo spies (Suc k) p = Exit (methodCount mo) q"
      and q': "if \<exists>i. Suc k \<le> i \<and> i < methodCount mo \<and> methodType (method_at mo i) = Signal
            then \<exists>j. q = Some (j, []) else q = p"
      using step [of p] by blast
    have "find_spy mo spies k p = Exit (methodCount mo) q"
      using False lt q by (simp add: find_spy.simps [of mo spies k])
    moreover have "(\<exists>i. k \<le> i \<and> i < methodCount mo \<and> methodType (method_at mo i) = Signal)
       = (\<exists>i. Suc k \<le> i \<and> i < methodCount mo \<and> methodType (method_at mo i) = Signal)"
      using False by (metis Suc_leI le_neq_implies_less Suc_leD)
    ultimately show ?thesis using q' by simp
  qed
qed

text \<open>
  A method index that is out of range yields the invalid method, which is no signal.
\<close>

lemma signal_in_range:
  "methodType (method_at mo i) = Signal \<Longrightarrow> i < methodCount mo"
  by (cases "i < methodCount mo") (simp_all add: method_at_def invalidMethod_def)

text \<open>
  Every table of spies falls under exactly one of the three outcomes of the loop.
\<close>

lemma scan_cases:
  fixes mo :: QMetaObject and spies :: "nat \<rightharpoonup> QSignalSpy"
  obtains
    (found) j a rest where "methodType (method_at mo j) = Signal" "spies j = Some (a # rest)"
      "\<forall>i. i < j \<and> methodType (method_at mo i) = Signal \<longrightarrow> spies i = Some []"
  | (unexpected) j where "methodType (method_at mo j) = Signal" "spies j = None"
      "\<forall>i. i < j \<and> methodType (method_at mo i) = Signal \<longrightarrow> spies i = Some []"
  | (exhausted) "\<forall>i. methodType (method_at mo i) = Signal \<longrightarrow> spies i = Some []"
proof (cases "\<exists>i. methodType (method_at mo i) = Signal \<and> spies i \<noteq> Some []")
  case False
  then show ?thesis using exhausted by blast
next
  case True
  define j where "j = (LEAST i. methodType (method_at mo i) = Signal \<and> spies i \<noteq> Some [])"
  have j: "methodType (method_at mo j) = Signal \<and> spies j \<noteq> Some []"
    unfolding j_def using True by (rule LeastI_ex)
  have below: "\<forall>i. i < j \<and> methodType (method_at mo i) = Signal \<longrightarrow> spies i = Some []"
    unfolding j_def using not_less_Least by blast
  show ?thesis
  proof (cases "spies j")
    case None
    with j below show ?thesis using unexpected by blast
  next
    case (Some s)
    with j obtain a rest where "s = a # rest" by (cases s) auto
    with Some j below show ?thesis using found by blast
  qed
qed

section \<open>The slot, outcome by outcome\<close>

lemma signalEmitted_append:
  assumes "methodType (method_at (metaObject obj) j) = Signal"
    and "m_signalSpies insp j = Some (a # rest)"
    and "\<forall>i. i < j \<and> methodType (method_at (metaObject obj) i) = Signal \<longrightarrow> m_signalSpies insp i = Some []"
  shows "signalEmitted nd (Some obj) now insp =
           Inr (insp\<lparr>events := events insp @
                        [\<lparr>signal = method_at (metaObject obj) j, timestamp = now, parameters = a\<rparr>],
                     m_signalSpies := (m_signalSpies insp)(j \<mapsto> [])\<rparr>)"
proof -
  have "find_spy (metaObject obj) (m_signalSpies insp) 0 None = Exit j (Some (j, a # rest))"
    using assms by (intro find_spy_found signal_in_range) simp_all
  then show ?thesis by (simp add: signalEmitted_def)
qed

lemma signalEmitted_warn:
  assumes "methodType (method_at (metaObject obj) j) = Signal"
    and "m_signalSpies insp j = None"
    and "\<forall>i. i < j \<and> methodType (method_at (metaObject obj) i) = Signal \<longrightarrow> m_signalSpies insp i = Some []"
  shows "signalEmitted nd (Some obj) now insp =
           Inr (insp\<lparr>warnings := warnings insp @ [''QSignalInspector: Unexpected signal emitted'']\<rparr>)"
proof -
  have "find_spy (metaObject obj) (m_signalSpies insp) 0 None = Return_unexpected"
    using assms by (intro find_spy_unexpected [where j = j] signal_in_range) simp_all
  then show ?thesis by (simp add: signalEmitted_def)
qed

lemma signalEmitted_nothing_pending:
  assumes "\<forall>i. methodType (method_at (metaObject obj) i) = Signal \<longrightarrow> m_signalSpies insp i = Some []"
  shows "signalEmitted nd (Some obj) now insp =
           (if \<exists>i. methodType (method_at (metaObject obj) i) = Signal
            then Inl Index_out_of_range else Inl Null_spy)"
proof -
  obtain q where q: "find_spy (metaObject obj) (m_signalSpies insp) 0 None = Exit (methodCount (metaObject obj)) q"
    and q': "if \<exists>i. 0 \<le> i \<and> i < methodCount (metaObject obj) \<and> methodType (method_at (metaObject obj) i) = Signal
            then \<exists>j. q = Some (j, []) else q = None"
    using find_spy_exhausted [of 0 "metaObject obj" "m_signalSpies insp" None] assms by auto
  have eq: "(\<exists>i. 0 \<le> i \<and> i < methodCount (metaObject obj) \<and> methodType (method_at (metaObject obj) i) = Signal)
     = (\<exists>i. methodType (method_at (metaObject obj) i) = Signal)"
    using signal_in_range by auto
  show ?thesis
  proof (cases "\<exists>i. methodType (method_at (metaObject obj) i) = Signal")
    case True
    with q' eq obtain j where "q = Some (j, [])" by auto
    with q True show ?thesis by (simp add: signalEmitted_def)
  next
    case False
    with q' eq have "q = None" by auto
    with q False show ?thesis by (simp add: signalEmitted_def)
  qed
qed

section \<open>The constructor's loop\<close>

lemma ctor_loop_result:
  "k \<le> methodCount mo \<Longrightarrow> ctor_loop mo k insp =
     insp\<lparr>m_signalSpies := (\<lambda>i. if k \<le> i \<and> methodType (method_at mo i) = Signal then Some []
                                else m_signalSpies insp i),
          connections := connections insp @
             filter (\<lambda>i. methodType (method_at mo i) = Signal) [k..<methodCount mo]\<rparr>"
proof (induction "methodCount mo - k" arbitrary: k insp)
  case 0
  then have "k = methodCount mo" by simp
  moreover have "(\<lambda>i. if methodCount mo \<le> i \<and> methodType (method_at mo i) = Signal then Some []
          else m_signalSpies insp i) = m_signalSpies insp"
    using signal_in_range [of mo] by (force simp: fun_eq_iff)
  ultimately show ?case by (simp add: ctor_loop.simps [of mo "methodCount mo"])
next
  case (Suc d)
  then have lt: "k < methodCount mo" and d: "d = methodCount mo - Suc k" by simp_all
  have le: "Suc k \<le> methodCount mo" using lt by simp
  note step = Suc.hyps(1) [OF d le]
  have upt: "[k..<methodCount mo] = k # [Suc k..<methodCount mo]"
    using lt by (simp add: upt_conv_Cons)
  show ?case
  proof (cases "methodType (method_at mo k) = Signal")
    case True
    with lt show ?thesis
      by (auto simp add: ctor_loop.simps [of mo k] step upt fun_eq_iff Suc_le_eq le_less)
  next
    case False
    with lt show ?thesis
      by (auto simp add: ctor_loop.simps [of mo k] step upt fun_eq_iff Suc_le_eq le_less)
  qed
qed

lemma ctor_loop_beyond:
  "methodCount mo \<le> k \<Longrightarrow> ctor_loop mo k insp = insp"
  by (simp add: ctor_loop.simps [of mo k])

section \<open>The example object, evaluated\<close>

lemma door_methodCount: "methodCount (metaObject door) = 5"
  by (simp add: door_def methodCount_def)

lemma door_signal_iff:
  "(methodType (method_at (metaObject door) i) = Signal) = (i = 0 \<or> i = 2 \<or> i = 3)"
proof (cases "i < 5")
  case True
  then consider "i = 0" | "i = 1" | "i = 2" | "i = 3" | "i = 4" by linarith
  then show ?thesis
    by cases (simp_all add: door_def method_at_def methodCount_def)
next
  case False
  then show ?thesis by (simp add: door_def method_at_def methodCount_def invalidMethod_def)
qed

lemma ctor_door_all:
  "QSignalInspector_ctor door True =
     \<lparr>events = [], m_signalSpies = [0 \<mapsto> [], 2 \<mapsto> [], 3 \<mapsto> []],
      connections = [0, 2, 3], warnings = []\<rparr>"
  by (simp add: QSignalInspector_ctor_def ctor_loop.simps door_def methodCount_def method_at_def
      numeral_eq_Suc)

lemma ctor_door_own:
  "QSignalInspector_ctor door False =
     \<lparr>events = [], m_signalSpies = [2 \<mapsto> [], 3 \<mapsto> []],
      connections = [2, 3], warnings = []\<rparr>"
  by (simp add: QSignalInspector_ctor_def ctor_loop.simps door_def methodCount_def method_at_def
      numeral_eq_Suc)


section \<open>Selection\<close>

text \<open>
  \<open>first_pending\<close> is the least signal index whose spy is pending.
\<close>

lemma first_pending_Some_iff:
  "first_pending mo spies = Some i \<longleftrightarrow>
     methodType (method_at mo i) = Signal \<and> pending spies i \<and>
     (\<forall>j. j < i \<longrightarrow> \<not> (methodType (method_at mo j) = Signal \<and> pending spies j))"
proof -
  have "first_pending mo spies = Some i \<longleftrightarrow>
     i < methodCount mo \<and> methodType (method_at mo i) = Signal \<and> pending spies i \<and>
     (\<forall>j. j < i \<longrightarrow> \<not> (methodType (method_at mo j) = Signal \<and> pending spies j))"
    unfolding first_pending_def find_Some_iff by auto
  then show ?thesis using signal_in_range by blast
qed

section \<open>What the slot does to the log\<close>

lemma signalEmitted_events:
  "signalEmitted nd sender now insp = Inr insp' \<Longrightarrow>
     events insp' = events insp \<or> (\<exists>r. events insp' = events insp @ [r])"
  by (auto simp add: signalEmitted_def
      split: loop_exit.splits option.splits prod.splits list.splits if_splits)

lemma emit_signal_events:
  "emit_signal nd obj i args now insp = Inr insp' \<Longrightarrow>
     events insp' = events insp \<or> (\<exists>r. events insp' = events insp @ [r])"
  using signalEmitted_events [of nd "Some obj" now _ insp']
  by (fastforce simp add: emit_signal_def Let_def split: if_splits option.splits)

lemma emit_all_events:
  "emit_all nd obj es insp = Inr insp' \<Longrightarrow>
     \<exists>rs. events insp' = events insp @ rs \<and> length rs \<le> length es"
proof (induction es arbitrary: insp)
  case Nil
  then show ?case by simp
next
  case (Cons e es)
  obtain i args now where e: "e = (i, args, now)" by (cases e) auto
  from Cons.prems e obtain mid where mid: "emit_signal nd obj i args now insp = Inr mid"
    and rest: "emit_all nd obj es mid = Inr insp'"
    by (auto split: sum.splits)
  from Cons.IH [OF rest] obtain rs where rs: "events insp' = events mid @ rs" "length rs \<le> length es"
    by blast
  from emit_signal_events [OF mid] show ?case
  proof
    assume "events mid = events insp"
    with rs show ?thesis by auto
  next
    assume "\<exists>r. events mid = events insp @ [r]"
    then obtain r where "events mid = events insp @ [r]" by blast
    with rs have "events insp' = events insp @ (r # rs)" "length (r # rs) \<le> length (e # es)"
      by simp_all
    then show ?thesis by blast
  qed
qed

section \<open>Attribution of a firing\<close>

text \<open>
  Where an invocation of the slot appends an entry, the entry names the first event in
  enumeration order from index 0 whose spy holds at least one caught emission, methods
  that are no signals being skipped, and the entry's parameters are the oldest
  argument list of that spy.
\<close>

lemma appended_entry_is_first_pending:
  assumes "signalEmitted nd (Some obj) now insp = Inr insp'"
    and "events insp' \<noteq> events insp"
  shows "\<exists>i a rest. first_pending (metaObject obj) (m_signalSpies insp) = Some i \<and>
           m_signalSpies insp i = Some (a # rest) \<and>
           events insp' = events insp @
             [\<lparr>signal = method_at (metaObject obj) i, timestamp = now, parameters = a\<rparr>]"
proof (cases "metaObject obj" "m_signalSpies insp" rule: scan_cases)
  case (found j a rest)
  have "first_pending (metaObject obj) (m_signalSpies insp) = Some j"
    unfolding first_pending_Some_iff using found by (auto simp: pending_def)
  moreover have "events insp' = events insp @
      [\<lparr>signal = method_at (metaObject obj) j, timestamp = now, parameters = a\<rparr>]"
    using signalEmitted_append [OF found, of nd now] assms(1) by auto
  ultimately show ?thesis using found(2) by blast
next
  case (unexpected j)
  from signalEmitted_warn [OF unexpected, of nd now] assms show ?thesis by auto
next
  case exhausted
  from signalEmitted_nothing_pending [OF exhausted, of nd now] assms(1) show ?thesis
    by (simp split: if_splits)
qed

lemma appended_entry_is_first_pending_at_door:
  "signalEmitted False (Some door) 7
      \<lparr>events = [], m_signalSpies = [0 \<mapsto> [], 2 \<mapsto> [], 3 \<mapsto> [[VString ''timeout'']]],
       connections = [0, 2, 3], warnings = []\<rparr>
     = Inr \<lparr>events = [\<lparr>signal = method_at (metaObject door) 3, timestamp = 7,
                        parameters = [VString ''timeout'']\<rparr>],
            m_signalSpies = [0 \<mapsto> [], 2 \<mapsto> [], 3 \<mapsto> []],
            connections = [0, 2, 3], warnings = []\<rparr>
   \<and> first_pending (metaObject door) [0 \<mapsto> [], 2 \<mapsto> [], 3 \<mapsto> [[VString ''timeout'']]] = Some 3"
proof -
  let ?insp = "\<lparr>events = [], m_signalSpies = [0 \<mapsto> [], 2 \<mapsto> [], 3 \<mapsto> [[VString ''timeout'']]],
       connections = [0, 2, 3], warnings = []\<rparr>"
  let ?insp' = "\<lparr>events = [\<lparr>signal = method_at (metaObject door) 3, timestamp = 7,
                        parameters = [VString ''timeout'']\<rparr>],
            m_signalSpies = [0 \<mapsto> [], 2 \<mapsto> [], 3 \<mapsto> []],
            connections = [0, 2, 3], warnings = []\<rparr>"
  have run: "signalEmitted False (Some door) 7 ?insp = Inr ?insp'"
    by (simp add: signalEmitted_def find_spy.simps door_def methodCount_def method_at_def
        numeral_eq_Suc)
  have changed: "events ?insp' \<noteq> events ?insp" by simp
  have first: "first_pending (metaObject door)
      [0 \<mapsto> [], 2 \<mapsto> [], 3 \<mapsto> [[VString ''timeout'']]] = Some 3"
    unfolding first_pending_Some_iff by (auto simp: door_signal_iff pending_def)
  from appended_entry_is_first_pending [OF run changed] first run
  show ?thesis by simp
qed

section \<open>Discovery\<close>

lemma filter_signal_beyond:
  "methodCount mo \<le> a \<Longrightarrow> filter (\<lambda>i. methodType (method_at mo i) = Signal) [a..<b] = []"
  using signal_in_range [of mo] by (fastforce simp: filter_empty_conv)

lemma all_signals_split:
  "filter (\<lambda>i. methodType (method_at mo i) = Signal) [0..<methodCount mo] =
     ancestor_signals mo @ own_signals mo"
proof (cases "methodOffset mo \<le> methodCount mo")
  case True
  then have "[0..<methodCount mo] = [0..<methodOffset mo] @ [methodOffset mo..<methodCount mo]"
    using upt_add_eq_append [of 0 "methodOffset mo" "methodCount mo - methodOffset mo"] by simp
  then show ?thesis by (simp add: ancestor_signals_def own_signals_def)
next
  case False
  then have "[0..<methodOffset mo] = [0..<methodCount mo] @ [methodCount mo..<methodOffset mo]"
    using upt_add_eq_append [of 0 "methodCount mo" "methodOffset mo - methodCount mo"] by simp
  with False show ?thesis
    by (simp add: ancestor_signals_def own_signals_def filter_signal_beyond)
qed

lemma ctor_all:
  "QSignalInspector_ctor obj True =
     \<lparr>events = [],
      m_signalSpies = (\<lambda>i. if methodType (method_at (metaObject obj) i) = Signal then Some [] else None),
      connections = ancestor_signals (metaObject obj) @ own_signals (metaObject obj),
      warnings = []\<rparr>"
  by (simp add: QSignalInspector_ctor_def ctor_loop_result all_signals_split fun_eq_iff)

lemma ctor_own:
  "QSignalInspector_ctor obj False =
     \<lparr>events = [],
      m_signalSpies = (\<lambda>i. if methodOffset (metaObject obj) \<le> i \<and>
                               methodType (method_at (metaObject obj) i) = Signal
                            then Some [] else None),
      connections = own_signals (metaObject obj),
      warnings = []\<rparr>"
proof (cases "methodOffset (metaObject obj) \<le> methodCount (metaObject obj)")
  case True
  then show ?thesis
    by (simp add: QSignalInspector_ctor_def ctor_loop_result own_signals_def fun_eq_iff)
next
  case False
  then have "\<not> (methodOffset (metaObject obj) \<le> i \<and> methodType (method_at (metaObject obj) i) = Signal)" for i
    using signal_in_range [of "metaObject obj" i] by auto
  with False show ?thesis
    by (auto simp add: QSignalInspector_ctor_def ctor_loop_beyond own_signals_def fun_eq_iff)
qed

lemma distinct_signals:
  "distinct (ancestor_signals mo @ own_signals mo)"
  unfolding all_signals_split [symmetric] by simp

text \<open>
  Claim C3.  Constructed without the ancestors' signals, the inspector holds one spy
  and one connection for each signal the object's own class declares and none for a
  signal of an ancestor; constructed with them, it holds one spy and one connection
  for each signal of the class and of its ancestors.  In both cases the number of
  spies is the number of those signals and no signal is connected twice.
\<close>

theorem ctor_observes_each_signal_once:
  "connections (QSignalInspector_ctor obj False) = own_signals (metaObject obj) \<and>
   dom (m_signalSpies (QSignalInspector_ctor obj False)) = set (own_signals (metaObject obj)) \<and>
   card (dom (m_signalSpies (QSignalInspector_ctor obj False))) = length (own_signals (metaObject obj)) \<and>
   set (ancestor_signals (metaObject obj)) \<inter> dom (m_signalSpies (QSignalInspector_ctor obj False)) = {} \<and>
   connections (QSignalInspector_ctor obj True) =
     ancestor_signals (metaObject obj) @ own_signals (metaObject obj) \<and>
   dom (m_signalSpies (QSignalInspector_ctor obj True)) =
     set (ancestor_signals (metaObject obj) @ own_signals (metaObject obj)) \<and>
   card (dom (m_signalSpies (QSignalInspector_ctor obj True))) =
     length (ancestor_signals (metaObject obj)) + length (own_signals (metaObject obj)) \<and>
   distinct (ancestor_signals (metaObject obj) @ own_signals (metaObject obj))"
proof -
  let ?mo = "metaObject obj"
  have d: "distinct (ancestor_signals ?mo @ own_signals ?mo)" by (rule distinct_signals)
  have own: "dom (m_signalSpies (QSignalInspector_ctor obj False)) = set (own_signals ?mo)"
    using signal_in_range [of ?mo]
    by (auto simp: ctor_own own_signals_def dom_def)
  have all: "dom (m_signalSpies (QSignalInspector_ctor obj True)) =
      set (ancestor_signals ?mo @ own_signals ?mo)"
    unfolding all_signals_split [symmetric] using signal_in_range [of ?mo]
    by (auto simp: ctor_all dom_def)
  have c1: "card (dom (m_signalSpies (QSignalInspector_ctor obj False))) = length (own_signals ?mo)"
    unfolding own using d by (simp add: distinct_card)
  have c2: "card (dom (m_signalSpies (QSignalInspector_ctor obj True))) =
      length (ancestor_signals ?mo) + length (own_signals ?mo)"
    unfolding all using distinct_card [OF d] by simp
  have disj: "set (ancestor_signals ?mo) \<inter> dom (m_signalSpies (QSignalInspector_ctor obj False)) = {}"
    unfolding own using d by auto
  show ?thesis using d own all c1 c2 disj by (simp add: ctor_own ctor_all)
qed

theorem ctor_observes_each_signal_once_witness:
  "connections (QSignalInspector_ctor door False) = [2, 3] \<and>
   dom (m_signalSpies (QSignalInspector_ctor door False)) = {2, 3} \<and>
   connections (QSignalInspector_ctor door True) = [0, 2, 3] \<and>
   dom (m_signalSpies (QSignalInspector_ctor door True)) = {0, 2, 3}"
proof -
  have own: "own_signals (metaObject door) = [2, 3]"
    by (simp add: own_signals_def door_def methodCount_def method_at_def upt_rec [of "Suc _"] upt_rec [of "numeral _"])
  have anc: "ancestor_signals (metaObject door) = [0]"
    by (simp add: ancestor_signals_def door_def methodCount_def method_at_def upt_rec [of 0] upt_rec [of "Suc _"])
  from ctor_observes_each_signal_once [of door] show ?thesis
    unfolding own anc by auto
qed

section \<open>The unexpected signal\<close>

text \<open>
  Claim C5.  When the search reaches a signal for which the table has no spy (every
  signal before it has a spy that holds nothing), the slot issues the warning and
  returns: no fault, no new entry, and the log, the spies and the connections are what
  they were.
\<close>

theorem unexpected_signal_leaves_log_unchanged:
  assumes "methodType (method_at (metaObject obj) j) = Signal"
    and "m_signalSpies insp j = None"
    and "\<forall>i. i < j \<and> methodType (method_at (metaObject obj) i) = Signal \<longrightarrow> m_signalSpies insp i = Some []"
  shows "\<exists>insp'. signalEmitted nd (Some obj) now insp = Inr insp' \<and>
           events insp' = events insp \<and>
           m_signalSpies insp' = m_signalSpies insp \<and>
           connections insp' = connections insp \<and>
           warnings insp' = warnings insp @ [''QSignalInspector: Unexpected signal emitted'']"
  using signalEmitted_warn [OF assms, of nd now] by simp

theorem unexpected_signal_leaves_log_unchanged_witness:
  "methodType (method_at (metaObject door) 0) = Signal \<and>
   m_signalSpies (QSignalInspector_ctor door False) 0 = None \<and>
   (\<exists>insp'. signalEmitted False (Some door) 7 (QSignalInspector_ctor door False) = Inr insp' \<and>
           events insp' = [] \<and>
           m_signalSpies insp' = [2 \<mapsto> [], 3 \<mapsto> []] \<and>
           connections insp' = [2, 3] \<and>
           warnings insp' = [''QSignalInspector: Unexpected signal emitted''])"
proof -
  have s: "methodType (method_at (metaObject door) 0) = Signal" by (simp add: door_signal_iff)
  have n: "m_signalSpies (QSignalInspector_ctor door False) 0 = None" by (simp add: ctor_door_own)
  have b: "\<forall>i. i < 0 \<and> methodType (method_at (metaObject door) i) = Signal \<longrightarrow>
      m_signalSpies (QSignalInspector_ctor door False) i = Some []" by simp
  from unexpected_signal_leaves_log_unchanged [OF s n b, of False 7] s n show ?thesis
    by (simp add: ctor_door_own)
qed

section \<open>The door scenario, step by step\<close>

lemma door_opened:
  "emit_signal nd door 2 [] now
     \<lparr>events = log, m_signalSpies = [0 \<mapsto> [], 2 \<mapsto> [], 3 \<mapsto> []],
      connections = [0, 2, 3], warnings = ws\<rparr> =
   Inr \<lparr>events = log @ [\<lparr>signal = method_at (metaObject door) 2, timestamp = now, parameters = []\<rparr>],
        m_signalSpies = [0 \<mapsto> [], 2 \<mapsto> [], 3 \<mapsto> []],
        connections = [0, 2, 3], warnings = ws\<rparr>"
  by (auto simp add: emit_signal_def signalEmitted_def find_spy.simps door_def
        methodCount_def method_at_def numeral_eq_Suc fun_eq_iff)

lemma door_closed:
  "emit_signal nd door 3 [VString reason] now
     \<lparr>events = log, m_signalSpies = [0 \<mapsto> [], 2 \<mapsto> [], 3 \<mapsto> []],
      connections = [0, 2, 3], warnings = ws\<rparr> =
   Inr \<lparr>events = log @ [\<lparr>signal = method_at (metaObject door) 3, timestamp = now,
                           parameters = [VString reason]\<rparr>],
        m_signalSpies = [0 \<mapsto> [], 2 \<mapsto> [], 3 \<mapsto> []],
        connections = [0, 2, 3], warnings = ws\<rparr>"
  by (auto simp add: emit_signal_def signalEmitted_def find_spy.simps door_def
        methodCount_def method_at_def numeral_eq_Suc fun_eq_iff)

lemma door_scenario:
  "emit_all nd door [(2, [], 10), (3, [VString ''timeout''], 11)] (QSignalInspector_ctor door True) =
     Inr \<lparr>events = [\<lparr>signal = method_at (metaObject door) 2, timestamp = 10, parameters = []\<rparr>,
                    \<lparr>signal = method_at (metaObject door) 3, timestamp = 11,
                      parameters = [VString ''timeout'']\<rparr>],
          m_signalSpies = [0 \<mapsto> [], 2 \<mapsto> [], 3 \<mapsto> []],
          connections = [0, 2, 3], warnings = []\<rparr>"
  by (simp add: ctor_door_all door_opened door_closed)

lemma door_own_emission:
  "i = 2 \<or> i = 3 \<Longrightarrow> emit_signal nd door i args now
     \<lparr>events = log, m_signalSpies = [2 \<mapsto> a, 3 \<mapsto> b],
      connections = [2, 3], warnings = ws\<rparr> =
   Inr \<lparr>events = log, m_signalSpies = (if i = 2 then [2 \<mapsto> a @ [args], 3 \<mapsto> b] else [2 \<mapsto> a, 3 \<mapsto> b @ [args]]),
        connections = [2, 3], warnings = ws @ [''QSignalInspector: Unexpected signal emitted'']\<rparr>"
  by (auto simp add: emit_signal_def signalEmitted_def find_spy.simps door_def
        methodCount_def method_at_def numeral_eq_Suc fun_eq_iff)

section \<open>The log only grows\<close>

text \<open>
  Claim C8.  The log is empty when the constructor returns.  An invocation of the slot
  that returns leaves the log as it was or appends exactly one entry at its end, and a
  sequence of emissions extends the log by at most one entry per emission: entries
  already in the log are neither changed nor removed.
\<close>

theorem log_is_append_only:
  "events (QSignalInspector_ctor obj includeParentClassSignals) = [] \<and>
   (signalEmitted nd sender now insp = Inr insp' \<longrightarrow>
      events insp' = events insp \<or> (\<exists>r. events insp' = events insp @ [r])) \<and>
   (emit_all nd obj es insp = Inr insp'' \<longrightarrow>
      (\<exists>rs. events insp'' = events insp @ rs \<and> length rs \<le> length es))"
proof -
  have "events (QSignalInspector_ctor obj includeParentClassSignals) = []"
    by (cases includeParentClassSignals) (simp_all add: ctor_own ctor_all)
  then show ?thesis using signalEmitted_events emit_all_events by blast
qed

theorem log_is_append_only_witness:
  "events (QSignalInspector_ctor door True) = [] \<and>
   emit_all False door [(2, [], 10), (3, [VString ''timeout''], 11)] (QSignalInspector_ctor door True) =
     Inr \<lparr>events = [\<lparr>signal = method_at (metaObject door) 2, timestamp = 10, parameters = []\<rparr>,
                    \<lparr>signal = method_at (metaObject door) 3, timestamp = 11,
                      parameters = [VString ''timeout'']\<rparr>],
          m_signalSpies = [0 \<mapsto> [], 2 \<mapsto> [], 3 \<mapsto> []],
          connections = [0, 2, 3], warnings = []\<rparr> \<and>
   (\<exists>rs. [\<lparr>signal = method_at (metaObject door) 2, timestamp = 10, parameters = []\<rparr>,
          \<lparr>signal = method_at (metaObject door) 3, timestamp = 11,
            parameters = [VString ''timeout'']\<rparr>] = [] @ rs \<and> length rs \<le> 2)"
proof -
  let ?es = "[(2, [], 10), (3, [VString ''timeout''], 11)]"
  let ?end = "\<lparr>events = [\<lparr>signal = method_at (metaObject door) 2, timestamp = 10, parameters = []\<rparr>,
                    \<lparr>signal = method_at (metaObject door) 3, timestamp = 11,
                      parameters = [VString ''timeout'']\<rparr>],
          m_signalSpies = [0 \<mapsto> [], 2 \<mapsto> [], 3 \<mapsto> []],
          connections = [0, 2, 3], warnings = []\<rparr>"
  from log_is_append_only [where nd = False and obj = door and includeParentClassSignals = True
      and es = ?es and insp = "QSignalInspector_ctor door True" and insp'' = ?end] door_scenario
  show ?thesis by (simp add: ctor_door_all)
qed

section \<open>The sender\<close>

lemma signalEmitted_with_sender:
  "signalEmitted nd (Some obj) now insp \<noteq> Inl Assert_sender \<and>
   signalEmitted nd (Some obj) now insp \<noteq> Inl Null_sender"
  by (simp add: signalEmitted_def split: loop_exit.splits option.splits prod.splits list.splits)

lemma emit_signal_with_sender:
  "emit_signal nd obj i args now insp \<noteq> Inl Assert_sender \<and>
   emit_signal nd obj i args now insp \<noteq> Inl Null_sender"
  using signalEmitted_with_sender by (simp add: emit_signal_def Let_def)

lemma emit_all_with_sender:
  "emit_all nd obj es insp \<noteq> Inl Assert_sender \<and> emit_all nd obj es insp \<noteq> Inl Null_sender"
proof (induction es arbitrary: insp)
  case Nil
  show ?case by simp
next
  case (Cons e es)
  obtain i args now where e: "e = (i, args, now)" by (cases e) auto
  show ?case
    using Cons.IH emit_signal_with_sender [of nd obj i args now insp]
    by (auto simp: e split: sum.splits)
qed

text \<open>
  Claim C10 says the slot asserts and aborts whenever it is invoked without a sender.
  In a build with \<^verbatim>\<open>QT_NO_DEBUG\<close> it does not: the assertion of line 99 is
  compiled out, the slot continues to line 101 and dereferences the null sender
  there.
\<close>

theorem missing_sender_counterexample:
  "signalEmitted True None 7 (QSignalInspector_ctor door True) = Inl Null_sender \<and>
   signalEmitted True None 7 (QSignalInspector_ctor door True) \<noteq> Inl Assert_sender"
  by (simp add: signalEmitted_def)

text \<open>
  Claim C10, amended.  Invoked without a sender, the slot never returns and never
  touches the log: in a debug build it stops at the assertion, in a build with
  \<^verbatim>\<open>QT_NO_DEBUG\<close> at the dereference of the null sender.  Invoked with a sender,
  as it is by every emission and every sequence of emissions, it passes the assertion
  and the dereference in either build.
\<close>

theorem missing_sender_is_fatal:
  "signalEmitted nd None now insp = (if nd then Inl Null_sender else Inl Assert_sender) \<and>
   signalEmitted nd (Some obj) now insp \<noteq> Inl Assert_sender \<and>
   signalEmitted nd (Some obj) now insp \<noteq> Inl Null_sender \<and>
   emit_signal nd obj i args now' insp' \<noteq> Inl Assert_sender \<and>
   emit_signal nd obj i args now' insp' \<noteq> Inl Null_sender \<and>
   emit_all nd obj es insp'' \<noteq> Inl Assert_sender \<and>
   emit_all nd obj es insp'' \<noteq> Inl Null_sender"
proof -
  have "signalEmitted nd None now insp = (if nd then Inl Null_sender else Inl Assert_sender)"
    by (simp add: signalEmitted_def)
  then show ?thesis
    using signalEmitted_with_sender emit_signal_with_sender emit_all_with_sender by blast
qed

theorem missing_sender_is_fatal_witness:
  "signalEmitted False None 7 (QSignalInspector_ctor door True) = Inl Assert_sender \<and>
   signalEmitted True None 7 (QSignalInspector_ctor door True) = Inl Null_sender \<and>
   signalEmitted True (Some door) 7 (QSignalInspector_ctor door True) \<noteq> Inl Null_sender \<and>
   emit_all True door [(2, [], 10), (3, [VString ''timeout''], 11)]
     (QSignalInspector_ctor door True) \<noteq> Inl Null_sender"
  using missing_sender_is_fatal [of False 7 "QSignalInspector_ctor door True"]
    missing_sender_is_fatal [of True 7 "QSignalInspector_ctor door True" door _ _ _ _
      "[(2, [], 10), (3, [VString ''timeout''], 11)]" "QSignalInspector_ctor door True"]
  by simp

section \<open>Reading a spy that holds nothing\<close>

text \<open>
  Claim C9 says the slot reads element 0 of an empty spy whenever every registered spy
  holds nothing.  The door inspected without its ancestor's signals refutes this: both
  registered spies hold nothing, and the slot meets the ancestor's signal first, warns
  and returns.
\<close>

theorem empty_spies_read_counterexample:
  "dom (m_signalSpies (QSignalInspector_ctor door False)) = {2, 3} \<and>
   m_signalSpies (QSignalInspector_ctor door False) 2 = Some [] \<and>
   m_signalSpies (QSignalInspector_ctor door False) 3 = Some [] \<and>
   signalEmitted False (Some door) 7 (QSignalInspector_ctor door False) \<noteq> Inl Index_out_of_range \<and>
   signalEmitted False (Some door) 7 (QSignalInspector_ctor door False) =
     Inr ((QSignalInspector_ctor door False)
            \<lparr>warnings := [''QSignalInspector: Unexpected signal emitted'']\<rparr>)"
  unfolding ctor_door_own
  by (auto simp add: signalEmitted_def find_spy.simps door_def methodCount_def method_at_def)

text \<open>
  Claim C9, amended.  The slot reads element 0 of an empty spy, after its loop has run
  past the last method index, exactly when the sender has at least one signal and
  every signal of the sender has a registered spy that holds nothing.
\<close>

theorem empty_spies_read_iff:
  "(signalEmitted nd (Some obj) now insp = Inl Index_out_of_range) =
     ((\<exists>i. methodType (method_at (metaObject obj) i) = Signal) \<and>
      (\<forall>i. methodType (method_at (metaObject obj) i) = Signal \<longrightarrow> m_signalSpies insp i = Some []))"
proof (cases "metaObject obj" "m_signalSpies insp" rule: scan_cases)
  case (found j a rest)
  from signalEmitted_append [OF found, of nd now] found show ?thesis by auto
next
  case (unexpected j)
  from signalEmitted_warn [OF unexpected, of nd now] unexpected show ?thesis by auto
next
  case exhausted
  from signalEmitted_nothing_pending [OF exhausted, of nd now] exhausted show ?thesis by auto
qed

theorem empty_spies_read_iff_witness:
  "signalEmitted False (Some door) 7 (QSignalInspector_ctor door True) = Inl Index_out_of_range \<and>
   methodType (method_at (metaObject door) 0) = Signal \<and>
   m_signalSpies (QSignalInspector_ctor door True) 0 = Some [] \<and>
   m_signalSpies (QSignalInspector_ctor door True) 2 = Some [] \<and>
   m_signalSpies (QSignalInspector_ctor door True) 3 = Some []"
proof -
  have "\<forall>i. methodType (method_at (metaObject door) i) = Signal \<longrightarrow>
      m_signalSpies (QSignalInspector_ctor door True) i = Some []"
    by (auto simp: door_signal_iff ctor_door_all)
  moreover have "\<exists>i. methodType (method_at (metaObject door) i) = Signal"
    by (auto simp: door_signal_iff)
  ultimately show ?thesis
    using empty_spies_read_iff [of False door 7 "QSignalInspector_ctor door True"]
    by (simp add: door_signal_iff ctor_door_all)
qed

section \<open>Draining\<close>

text \<open>
  Claim C6.  After an invocation of the slot has consumed a firing into an entry, the
  selected spy holds nothing, and the next emission of the same signal appends a
  further entry of its own, with the arguments of that emission, and leaves the spy
  empty again.
\<close>

theorem consumed_firing_clears_spy:
  assumes "signalEmitted nd (Some obj) t1 insp = Inr insp1"
    and "events insp1 \<noteq> events insp"
    and "first_pending (metaObject obj) (m_signalSpies insp) = Some i"
    and "i \<in> set (connections insp)"
  shows "m_signalSpies insp1 i = Some [] \<and>
         length (events insp1) = Suc (length (events insp)) \<and>
         (\<exists>insp2. emit_signal nd obj i args t2 insp1 = Inr insp2 \<and>
            events insp2 = events insp1 @
              [\<lparr>signal = method_at (metaObject obj) i, timestamp = t2, parameters = args\<rparr>] \<and>
            m_signalSpies insp2 i = Some [])"
proof (cases "metaObject obj" "m_signalSpies insp" rule: scan_cases)
  case (found j a rest)
  have "first_pending (metaObject obj) (m_signalSpies insp) = Some j"
    unfolding first_pending_Some_iff using found by (auto simp: pending_def)
  with assms(3) have ij: "j = i" by simp
  have insp1: "insp1 = insp\<lparr>events := events insp @
        [\<lparr>signal = method_at (metaObject obj) i, timestamp = t1, parameters = a\<rparr>],
      m_signalSpies := (m_signalSpies insp)(i \<mapsto> [])\<rparr>"
    using signalEmitted_append [OF found, of nd t1] assms(1) ij by simp
  let ?caught = "insp1\<lparr>m_signalSpies := (m_signalSpies insp1)(i \<mapsto> [] @ [args])\<rparr>"
  have sig: "methodType (method_at (metaObject obj) i) = Signal" using found(1) ij by simp
  have here: "m_signalSpies ?caught i = Some (args # [])" by simp
  have before: "\<forall>k. k < i \<and> methodType (method_at (metaObject obj) k) = Signal \<longrightarrow>
      m_signalSpies ?caught k = Some []"
    using found(3) ij by (simp add: insp1)
  have emit: "emit_signal nd obj i args t2 insp1 = signalEmitted nd (Some obj) t2 ?caught"
    using assms(4) by (simp add: emit_signal_def insp1)
  from signalEmitted_append [OF sig here before, of nd t2] emit
  show ?thesis by (simp add: insp1)
next
  case (unexpected j)
  from signalEmitted_warn [OF unexpected, of nd t1] assms(1,2) show ?thesis by auto
next
  case exhausted
  from signalEmitted_nothing_pending [OF exhausted, of nd t1] assms(1) show ?thesis
    by (simp split: if_splits)
qed

theorem consumed_firing_clears_spy_witness:
  "signalEmitted False (Some door) 7
      \<lparr>events = [], m_signalSpies = [0 \<mapsto> [], 2 \<mapsto> [], 3 \<mapsto> [[VString ''timeout'']]],
       connections = [0, 2, 3], warnings = []\<rparr>
     = Inr \<lparr>events = [\<lparr>signal = method_at (metaObject door) 3, timestamp = 7,
                        parameters = [VString ''timeout'']\<rparr>],
            m_signalSpies = [0 \<mapsto> [], 2 \<mapsto> [], 3 \<mapsto> []],
            connections = [0, 2, 3], warnings = []\<rparr> \<and>
   first_pending (metaObject door) [0 \<mapsto> [], 2 \<mapsto> [], 3 \<mapsto> [[VString ''timeout'']]] = Some 3 \<and>
   (\<exists>insp2. emit_signal False door 3 [VString ''again''] 8
        \<lparr>events = [\<lparr>signal = method_at (metaObject door) 3, timestamp = 7,
                        parameters = [VString ''timeout'']\<rparr>],
            m_signalSpies = [0 \<mapsto> [], 2 \<mapsto> [], 3 \<mapsto> []],
            connections = [0, 2, 3], warnings = []\<rparr> = Inr insp2 \<and>
      events insp2 =
        [\<lparr>signal = method_at (metaObject door) 3, timestamp = 7, parameters = [VString ''timeout'']\<rparr>,
         \<lparr>signal = method_at (metaObject door) 3, timestamp = 8, parameters = [VString ''again'']\<rparr>] \<and>
      m_signalSpies insp2 3 = Some [])"
proof -
  let ?insp = "\<lparr>events = [], m_signalSpies = [0 \<mapsto> [], 2 \<mapsto> [], 3 \<mapsto> [[VString ''timeout'']]],
       connections = [0, 2, 3], warnings = []\<rparr>"
  let ?insp1 = "\<lparr>events = [\<lparr>signal = method_at (metaObject door) 3, timestamp = 7,
                        parameters = [VString ''timeout'']\<rparr>],
            m_signalSpies = [0 \<mapsto> [], 2 \<mapsto> [], 3 \<mapsto> []],
            connections = [0, 2, 3], warnings = []\<rparr>"
  have run: "signalEmitted False (Some door) 7 ?insp = Inr ?insp1"
    by (simp add: signalEmitted_def find_spy.simps door_def methodCount_def method_at_def
        numeral_eq_Suc)
  have changed: "events ?insp1 \<noteq> events ?insp" by simp
  have first: "first_pending (metaObject door) (m_signalSpies ?insp) = Some 3"
    unfolding first_pending_Some_iff by (auto simp: door_signal_iff pending_def)
  have conn: "3 \<in> set (connections ?insp)" by simp
  from consumed_firing_clears_spy [OF run changed first conn, of "[VString ''again'']" 8]
    run first
  show ?thesis by simp
qed

section \<open>Inspecting the own signals only\<close>

lemma ancestor_signal_masks:
  assumes "a < methodOffset (metaObject obj)"
    and "methodType (method_at (metaObject obj) a) = Signal"
    and "\<forall>k. k < methodOffset (metaObject obj) \<longrightarrow> m_signalSpies insp k = None"
  shows "signalEmitted nd (Some obj) now insp =
           Inr (insp\<lparr>warnings := warnings insp @ [''QSignalInspector: Unexpected signal emitted'']\<rparr>)"
proof -
  define j where "j = (LEAST i. methodType (method_at (metaObject obj) i) = Signal)"
  have sig: "methodType (method_at (metaObject obj) j) = Signal"
    unfolding j_def using assms(2) by (rule LeastI)
  have "j \<le> a" unfolding j_def using assms(2) by (rule Least_le)
  with assms(1,3) have none: "m_signalSpies insp j = None" by simp
  have before: "\<forall>i. i < j \<and> methodType (method_at (metaObject obj) i) = Signal \<longrightarrow>
      m_signalSpies insp i = Some []"
    unfolding j_def using not_less_Least by blast
  from signalEmitted_warn [OF sig none before] show ?thesis .
qed

lemma emit_signal_masked:
  assumes "a < methodOffset (metaObject obj)"
    and "methodType (method_at (metaObject obj) a) = Signal"
    and "\<forall>k. k < methodOffset (metaObject obj) \<longrightarrow> m_signalSpies insp k = None"
  shows "\<exists>insp'. emit_signal nd obj i args now insp = Inr insp' \<and>
           events insp' = events insp \<and> connections insp' = connections insp \<and>
           (\<forall>k. k < methodOffset (metaObject obj) \<longrightarrow> m_signalSpies insp' k = None)"
proof -
  let ?caught = "case m_signalSpies insp i of None \<Rightarrow> insp
    | Some s \<Rightarrow> insp\<lparr>m_signalSpies := (m_signalSpies insp)(i \<mapsto> s @ [args])\<rparr>"
  have ev: "events ?caught = events insp" and co: "connections ?caught = connections insp"
    by (simp_all split: option.splits)
  have keep: "\<forall>k. k < methodOffset (metaObject obj) \<longrightarrow> m_signalSpies ?caught k = None"
    using assms(3) by (auto split: option.splits)
  show ?thesis
  proof (cases "i \<in> set (connections insp)")
    case True
    then have "emit_signal nd obj i args now insp = signalEmitted nd (Some obj) now ?caught"
      by (simp add: emit_signal_def)
    with ancestor_signal_masks [OF assms(1,2) keep, of nd now] ev co keep show ?thesis by simp
  next
    case False
    then have "emit_signal nd obj i args now insp = Inr ?caught"
      by (simp add: emit_signal_def)
    with ev co keep show ?thesis by simp
  qed
qed

lemma emit_all_masked:
  assumes "a < methodOffset (metaObject obj)"
    and "methodType (method_at (metaObject obj) a) = Signal"
  shows "(\<forall>k. k < methodOffset (metaObject obj) \<longrightarrow> m_signalSpies insp k = None) \<Longrightarrow>
         \<exists>insp'. emit_all nd obj es insp = Inr insp' \<and>
           events insp' = events insp \<and> connections insp' = connections insp \<and>
           (\<forall>k. k < methodOffset (metaObject obj) \<longrightarrow> m_signalSpies insp' k = None)"
proof (induction es arbitrary: insp)
  case Nil
  then show ?case by simp
next
  case (Cons e es)
  obtain i args now where e: "e = (i, args, now)" by (cases e) auto
  from emit_signal_masked [OF assms Cons.prems, of nd i args now]
  obtain mid where mid: "emit_signal nd obj i args now insp = Inr mid"
    "events mid = events insp" "connections mid = connections insp"
    "\<forall>k. k < methodOffset (metaObject obj) \<longrightarrow> m_signalSpies mid k = None"
    by blast
  from Cons.IH [OF mid(4)] mid(1-3) show ?case by (auto simp: e)
qed

text \<open>
  Claim C4.  When an ancestor of the object declares a signal and the inspector was
  constructed without the ancestors' signals, every sequence of emissions leaves the
  log empty, and every invocation of the slot afterwards meets a signal without a spy
  first, warns and returns without an entry.
\<close>

theorem own_signals_only_never_logs:
  assumes "a < methodOffset (metaObject obj)"
    and "methodType (method_at (metaObject obj) a) = Signal"
  shows "\<exists>insp'. emit_all nd obj es (QSignalInspector_ctor obj False) = Inr insp' \<and>
           events insp' = [] \<and>
           signalEmitted nd (Some obj) now insp' =
             Inr (insp'\<lparr>warnings := warnings insp' @
                    [''QSignalInspector: Unexpected signal emitted'']\<rparr>)"
proof -
  have start: "\<forall>k. k < methodOffset (metaObject obj) \<longrightarrow>
      m_signalSpies (QSignalInspector_ctor obj False) k = None"
    by (simp add: ctor_own)
  from emit_all_masked [OF assms start, of nd es]
  obtain insp' where end': "emit_all nd obj es (QSignalInspector_ctor obj False) = Inr insp'"
    "events insp' = events (QSignalInspector_ctor obj False)"
    "\<forall>k. k < methodOffset (metaObject obj) \<longrightarrow> m_signalSpies insp' k = None"
    by blast
  from ancestor_signal_masks [OF assms end'(3), of nd now] end'(1,2) show ?thesis
    by (simp add: ctor_own)
qed

lemma door_own_scenario:
  "emit_all nd door [(2, [], 10), (3, [VString ''timeout''], 11)] (QSignalInspector_ctor door False) =
     Inr \<lparr>events = [], m_signalSpies = [2 \<mapsto> [[]], 3 \<mapsto> [[VString ''timeout'']]],
          connections = [2, 3],
          warnings = [''QSignalInspector: Unexpected signal emitted'',
                      ''QSignalInspector: Unexpected signal emitted'']\<rparr>"
  by (simp add: ctor_door_own door_own_emission)

theorem own_signals_only_never_logs_witness:
  "(0::nat) < methodOffset (metaObject door) \<and>
   methodType (method_at (metaObject door) 0) = Signal \<and>
   (\<exists>insp'. emit_all False door [(2, [], 10), (3, [VString ''timeout''], 11)]
        (QSignalInspector_ctor door False) = Inr insp' \<and>
      events insp' = [] \<and>
      warnings insp' = [''QSignalInspector: Unexpected signal emitted'',
                        ''QSignalInspector: Unexpected signal emitted''] \<and>
      signalEmitted False (Some door) 12 insp' =
        Inr (insp'\<lparr>warnings := warnings insp' @
               [''QSignalInspector: Unexpected signal emitted'']\<rparr>))"
proof -
  have a: "(0::nat) < methodOffset (metaObject door)" by (simp add: door_def)
  have s: "methodType (method_at (metaObject door) 0) = Signal" by (simp add: door_signal_iff)
  from own_signals_only_never_logs [OF a s, of False "[(2, [], 10), (3, [VString ''timeout''], 11)]" 12]
    a s door_own_scenario
  show ?thesis by auto
qed

text \<open>
  Claim C1 at the door inspected without its ancestor's signals: \<^verbatim>\<open>opened()\<close>
  is a signal of the door's own class and is connected to the slot, yet its emission
  is answered by the warning and adds no entry to the log.
\<close>

theorem door_own_signals_emission_not_logged:
  "emit_all False door [(2, [], 10)] (QSignalInspector_ctor door False) =
     Inr \<lparr>events = [], m_signalSpies = [2 \<mapsto> [[]], 3 \<mapsto> []],
          connections = [2, 3],
          warnings = [''QSignalInspector: Unexpected signal emitted'']\<rparr> \<and>
   connections (QSignalInspector_ctor door False) = [2, 3] \<and>
   methodType (method_at (metaObject door) 2) = Signal"
  by (simp add: ctor_door_own door_own_emission door_signal_iff)

text \<open>
  Claim C2 at the same door, in the state in which the slot runs during that emission:
  the constructor has registered the spies of the door's own two signals, the spy of
  \<^verbatim>\<open>opened()\<close> has caught the emission, so \<^verbatim>\<open>opened()\<close>, at index 2, is the
  first event whose spy is pending, yet the slot attributes the firing to no event: it
  stops at index 0, warns and returns with an empty log.
\<close>

theorem door_first_pending_not_attributed:
  "m_signalSpies (QSignalInspector_ctor door False) = [2 \<mapsto> [], 3 \<mapsto> []] \<and>
   first_pending (metaObject door) [2 \<mapsto> [[]], 3 \<mapsto> []] = Some 2 \<and>
   signalEmitted False (Some door) 10
      \<lparr>events = [], m_signalSpies = [2 \<mapsto> [[]], 3 \<mapsto> []],
       connections = [2, 3], warnings = []\<rparr> =
     Inr \<lparr>events = [], m_signalSpies = [2 \<mapsto> [[]], 3 \<mapsto> []],
          connections = [2, 3],
          warnings = [''QSignalInspector: Unexpected signal emitted'']\<rparr>"
proof -
  have "first_pending (metaObject door) [2 \<mapsto> [[]], 3 \<mapsto> []] = Some 2"
    unfolding first_pending_Some_iff by (auto simp: door_signal_iff pending_def)
  moreover have "signalEmitted False (Some door) 10
      \<lparr>events = [], m_signalSpies = [2 \<mapsto> [[]], 3 \<mapsto> []],
       connections = [2, 3], warnings = []\<rparr> =
     Inr \<lparr>events = [], m_signalSpies = [2 \<mapsto> [[]], 3 \<mapsto> []],
          connections = [2, 3],
          warnings = [''QSignalInspector: Unexpected signal emitted'']\<rparr>"
    by (simp add: signalEmitted_def find_spy.simps door_def methodCount_def method_at_def)
  ultimately show ?thesis by (simp add: ctor_door_own)
qed

section \<open>Logged parameters and signatures\<close>

lemma emit_signal_conforms:
  assumes spies: "\<forall>k s. m_signalSpies insp k = Some s \<longrightarrow>
        (\<forall>a\<in>set s. conforms (method_at (metaObject obj) k) a)"
    and log: "\<forall>r\<in>set (events insp). conforms (signal r) (parameters r)"
    and conn: "\<forall>k\<in>set (connections insp).
        methodType (method_at (metaObject obj) k) = Signal \<and> m_signalSpies insp k \<noteq> None"
    and arg: "conforms (method_at (metaObject obj) i) args"
  shows "\<exists>insp'. emit_signal nd obj i args now insp = Inr insp' \<and>
      (\<forall>k s. m_signalSpies insp' k = Some s \<longrightarrow>
        (\<forall>a\<in>set s. conforms (method_at (metaObject obj) k) a)) \<and>
      (\<forall>r\<in>set (events insp'). conforms (signal r) (parameters r)) \<and>
      (\<forall>k\<in>set (connections insp').
        methodType (method_at (metaObject obj) k) = Signal \<and> m_signalSpies insp' k \<noteq> None)"
proof -
  let ?mo = "metaObject obj"
  let ?caught = "case m_signalSpies insp i of None \<Rightarrow> insp
    | Some s \<Rightarrow> insp\<lparr>m_signalSpies := (m_signalSpies insp)(i \<mapsto> s @ [args])\<rparr>"
  have ev: "events ?caught = events insp" and co: "connections ?caught = connections insp"
    by (simp_all split: option.splits)
  have spies_c: "\<forall>k s. m_signalSpies ?caught k = Some s \<longrightarrow>
        (\<forall>a\<in>set s. conforms (method_at ?mo k) a)"
    using spies arg by (auto split: option.splits if_splits)
  have conn_c: "\<forall>k\<in>set (connections ?caught).
        methodType (method_at ?mo k) = Signal \<and> m_signalSpies ?caught k \<noteq> None"
    using conn by (auto split: option.splits)
  show ?thesis
  proof (cases "i \<in> set (connections insp)")
    case False
    then have "emit_signal nd obj i args now insp = Inr ?caught"
      by (simp add: emit_signal_def)
    with spies_c conn_c log ev show ?thesis by simp
  next
    case True
    then have emit: "emit_signal nd obj i args now insp = signalEmitted nd (Some obj) now ?caught"
      by (simp add: emit_signal_def)
    from True conn obtain s where s: "m_signalSpies insp i = Some s"
      and isig: "methodType (method_at ?mo i) = Signal" by auto
    then have full: "m_signalSpies ?caught i = Some (s @ [args])" by simp
    show ?thesis
    proof (cases ?mo "m_signalSpies ?caught" rule: scan_cases)
      case (found j a rest)
      let ?insp' = "?caught\<lparr>events := events ?caught @
          [\<lparr>signal = method_at ?mo j, timestamp = now, parameters = a\<rparr>],
        m_signalSpies := (m_signalSpies ?caught)(j \<mapsto> [])\<rparr>"
      have res: "emit_signal nd obj i args now insp = Inr ?insp'"
        using signalEmitted_append [OF found, of nd now] emit by simp
      have "conforms (method_at ?mo j) a" using spies_c found(2) by auto
      then have log': "\<forall>r\<in>set (events ?insp'). conforms (signal r) (parameters r)"
        using log ev by auto
      have spies': "\<forall>k s. m_signalSpies ?insp' k = Some s \<longrightarrow>
          (\<forall>a\<in>set s. conforms (method_at ?mo k) a)"
        using spies_c by (auto split: if_splits)
      have conn': "\<forall>k\<in>set (connections ?insp').
          methodType (method_at ?mo k) = Signal \<and> m_signalSpies ?insp' k \<noteq> None"
        using conn_c by auto
      from res log' spies' conn' show ?thesis by blast
    next
      case (unexpected j)
      let ?insp' = "?caught\<lparr>warnings := warnings ?caught @
          [''QSignalInspector: Unexpected signal emitted'']\<rparr>"
      have res: "emit_signal nd obj i args now insp = Inr ?insp'"
        using signalEmitted_warn [OF unexpected, of nd now] emit by simp
      have "\<forall>r\<in>set (events ?insp'). conforms (signal r) (parameters r)"
        using log ev by simp
      moreover have "\<forall>k s. m_signalSpies ?insp' k = Some s \<longrightarrow>
          (\<forall>a\<in>set s. conforms (method_at ?mo k) a)"
        using spies_c by simp
      moreover have "\<forall>k\<in>set (connections ?insp').
          methodType (method_at ?mo k) = Signal \<and> m_signalSpies ?insp' k \<noteq> None"
        using conn_c by simp
      ultimately show ?thesis using res by blast
    next
      case exhausted
      with isig have "m_signalSpies ?caught i = Some []" by blast
      with full show ?thesis by simp
    qed
  qed
qed

lemma emit_all_conforms:
  "well_typed (metaObject obj) es \<Longrightarrow>
   \<forall>k s. m_signalSpies insp k = Some s \<longrightarrow>
        (\<forall>a\<in>set s. conforms (method_at (metaObject obj) k) a) \<Longrightarrow>
   \<forall>r\<in>set (events insp). conforms (signal r) (parameters r) \<Longrightarrow>
   \<forall>k\<in>set (connections insp).
        methodType (method_at (metaObject obj) k) = Signal \<and> m_signalSpies insp k \<noteq> None \<Longrightarrow>
   \<exists>insp'. emit_all nd obj es insp = Inr insp' \<and>
      (\<forall>r\<in>set (events insp'). conforms (signal r) (parameters r))"
proof (induction es arbitrary: insp)
  case Nil
  then show ?case by simp
next
  case (Cons e es)
  obtain i args now where e: "e = (i, args, now)" by (cases e) auto
  from Cons.prems(1) e have arg: "conforms (method_at (metaObject obj) i) args"
    and rest: "well_typed (metaObject obj) es"
    by simp_all
  from emit_signal_conforms [OF Cons.prems(2,3,4) arg, of nd now]
  obtain mid where mid: "emit_signal nd obj i args now insp = Inr mid"
    and m1: "\<forall>k s. m_signalSpies mid k = Some s \<longrightarrow>
        (\<forall>a\<in>set s. conforms (method_at (metaObject obj) k) a)"
    and m2: "\<forall>r\<in>set (events mid). conforms (signal r) (parameters r)"
    and m3: "\<forall>k\<in>set (connections mid).
        methodType (method_at (metaObject obj) k) = Signal \<and> m_signalSpies mid k \<noteq> None"
    by blast
  from Cons.IH [OF rest m1 m2 m3] mid show ?case by (simp add: e)
qed

lemma ctor_connections_are_signals:
  "\<forall>k\<in>set (connections (QSignalInspector_ctor obj incl)).
     methodType (method_at (metaObject obj) k) = Signal \<and>
     m_signalSpies (QSignalInspector_ctor obj incl) k \<noteq> None"
proof (cases incl)
  case True
  then show ?thesis
    by (auto simp: ctor_all all_signals_split [symmetric])
next
  case False
  then show ?thesis by (auto simp: ctor_own own_signals_def)
qed

lemma ctor_spies_empty:
  "m_signalSpies (QSignalInspector_ctor obj incl) k = Some s \<Longrightarrow> s = []"
  by (cases incl) (auto simp: ctor_all ctor_own split: if_splits)

text \<open>
  Claim C7.  After any well-typed sequence of emissions, every entry of the log holds
  an argument list whose length and type names are those of the formal parameters of
  the signal recorded in the same entry.
\<close>

theorem logged_parameters_match_signature:
  assumes "well_typed (metaObject obj) es"
  shows "\<exists>insp'. emit_all nd obj es (QSignalInspector_ctor obj includeParentClassSignals) = Inr insp' \<and>
           list_all (\<lambda>r. conforms (signal r) (parameters r)) (events insp')"
proof -
  let ?start = "QSignalInspector_ctor obj includeParentClassSignals"
  have s1: "\<forall>k s. m_signalSpies ?start k = Some s \<longrightarrow>
        (\<forall>a\<in>set s. conforms (method_at (metaObject obj) k) a)"
    using ctor_spies_empty [of obj includeParentClassSignals] by fastforce
  have s2: "\<forall>r\<in>set (events ?start). conforms (signal r) (parameters r)"
    by (cases includeParentClassSignals) (simp_all add: ctor_all ctor_own)
  from emit_all_conforms [OF assms s1 s2 ctor_connections_are_signals]
  show ?thesis by (simp add: list_all_iff)
qed

theorem logged_parameters_match_signature_witness:
  "well_typed (metaObject door) [(2, [], 10), (3, [VString ''timeout''], 11)] \<and>
   (\<exists>insp'. emit_all False door [(2, [], 10), (3, [VString ''timeout''], 11)]
        (QSignalInspector_ctor door True) = Inr insp' \<and>
      length (events insp') = 2 \<and>
      list_all (\<lambda>r. conforms (signal r) (parameters r)) (events insp'))"
proof -
  have typed: "well_typed (metaObject door) [(2, [], 10), (3, [VString ''timeout''], 11)]"
    by (simp add: conforms_def door_def method_at_def methodCount_def)
  from logged_parameters_match_signature [OF typed, of False True] typed door_scenario
  show ?thesis by auto
qed

section \<open>Inspecting all signals\<close>

lemma emit_signal_clear:
  assumes clear: "\<forall>k. methodType (method_at (metaObject obj) k) = Signal \<longrightarrow>
        m_signalSpies insp k = Some [] \<and> k \<in> set (connections insp)"
    and sig: "methodType (method_at (metaObject obj) i) = Signal"
  shows "emit_signal nd obj i args now insp =
           Inr (insp\<lparr>events := events insp @
                  [\<lparr>signal = method_at (metaObject obj) i, timestamp = now, parameters = args\<rparr>]\<rparr>)"
proof -
  let ?caught = "insp\<lparr>m_signalSpies := (m_signalSpies insp)(i \<mapsto> [] @ [args])\<rparr>"
  have emit: "emit_signal nd obj i args now insp = signalEmitted nd (Some obj) now ?caught"
    using clear sig by (simp add: emit_signal_def)
  have here: "m_signalSpies ?caught i = Some (args # [])" by simp
  have before: "\<forall>k. k < i \<and> methodType (method_at (metaObject obj) k) = Signal \<longrightarrow>
      m_signalSpies ?caught k = Some []"
    using clear by simp
  have idem: "(m_signalSpies insp)(i \<mapsto> []) = m_signalSpies insp"
    using clear sig by (simp add: fun_upd_idem)
  from signalEmitted_append [OF sig here before, of nd now] emit idem
  show ?thesis by simp
qed

lemma emit_all_clear:
  "\<forall>k. methodType (method_at (metaObject obj) k) = Signal \<longrightarrow>
        m_signalSpies insp k = Some [] \<and> k \<in> set (connections insp) \<Longrightarrow>
   signals_only (metaObject obj) es \<Longrightarrow>
   emit_all nd obj es insp =
     Inr (insp\<lparr>events := events insp @ map (expected_event (metaObject obj)) es\<rparr>)"
proof (induction es arbitrary: insp)
  case Nil
  then show ?case by simp
next
  case (Cons e es)
  obtain i args now where e: "e = (i, args, now)" by (cases e) auto
  let ?mid = "insp\<lparr>events := events insp @
      [\<lparr>signal = method_at (metaObject obj) i, timestamp = now, parameters = args\<rparr>]\<rparr>"
  from Cons.prems(2) e have sig: "methodType (method_at (metaObject obj) i) = Signal"
    and rest: "signals_only (metaObject obj) es"
    by simp_all
  have step: "emit_signal nd obj i args now insp = Inr ?mid"
    using emit_signal_clear [OF Cons.prems(1) sig] .
  have clear': "\<forall>k. methodType (method_at (metaObject obj) k) = Signal \<longrightarrow>
        m_signalSpies ?mid k = Some [] \<and> k \<in> set (connections ?mid)"
    using Cons.prems(1) by simp
  from Cons.IH [OF clear' rest] step show ?case
    by (simp add: e expected_event_def)
qed

text \<open>
  The ordering property where it holds: an inspector constructed with the ancestors'
  signals logs every sequence of emissions of the object's signals completely and in
  order, one entry per emission, with the signal, the time and the arguments of that
  emission, and all spies are empty again afterwards.
\<close>

theorem all_signals_logged_in_order:
  assumes "signals_only (metaObject obj) es"
  shows "emit_all nd obj es (QSignalInspector_ctor obj True) =
           Inr ((QSignalInspector_ctor obj True)
                  \<lparr>events := map (expected_event (metaObject obj)) es\<rparr>)"
proof -
  have clear: "\<forall>k. methodType (method_at (metaObject obj) k) = Signal \<longrightarrow>
        m_signalSpies (QSignalInspector_ctor obj True) k = Some [] \<and>
        k \<in> set (connections (QSignalInspector_ctor obj True))"
    using signal_in_range [of "metaObject obj"]
    by (auto simp: ctor_all all_signals_split [symmetric])
  from emit_all_clear [OF clear assms] show ?thesis by (simp add: ctor_all)
qed

theorem all_signals_logged_in_order_witness:
  "signals_only (metaObject door) [(2, [], 10), (3, [VString ''timeout''], 11)] \<and>
   emit_all False door [(2, [], 10), (3, [VString ''timeout''], 11)] (QSignalInspector_ctor door True) =
     Inr \<lparr>events = [\<lparr>signal = method_at (metaObject door) 2, timestamp = 10, parameters = []\<rparr>,
                    \<lparr>signal = method_at (metaObject door) 3, timestamp = 11,
                      parameters = [VString ''timeout'']\<rparr>],
          m_signalSpies = [0 \<mapsto> [], 2 \<mapsto> [], 3 \<mapsto> []],
          connections = [0, 2, 3], warnings = []\<rparr>"
proof -
  have sigs: "signals_only (metaObject door) [(2, [], 10), (3, [VString ''timeout''], 11)]"
    by (simp add: door_signal_iff)
  from all_signals_logged_in_order [OF sigs] sigs show ?thesis
    by (simp add: ctor_door_all expected_event_def)
qed

end
